theory Spec2Isabelle
  imports Complex_Main "HOL-Library.Char_ord" "HOL-Library.List_Lexorder"
begin

section \<open>JavaScript Numbers\<close>

text \<open>
  A Number is an IEEE 754 binary64 value. A finite Number is modelled by the real number it
  denotes, and an arithmetic operator by the exact operation followed by rounding to the
  nearest binary64 value, ties to the even significand: 53 significant bits, and the fixed
  spacing \<open>2 powi - 1074\<close> below \<open>2 powi - 1022\<close>. \<open>Infinity\<close> (a result of magnitude
  \<open>2 powi 1024\<close> or more) and \<open>NaN\<close> are outside the model.
\<close>

definition rne :: "real \<Rightarrow> int" where
  "rne x = (let f = \<lfloor>x\<rfloor>; r = x - of_int f
            in if r < 1/2 then f else if 1/2 < r then f + 1 else if even f then f else f + 1)"

text \<open>
  The exponent of the binade of a positive number: the integer \<open>e\<close> with
  \<open>2 powi e \<le> x < 2 powi (e + 1)\<close>, found by halving or doubling.
\<close>

function floorLog2 :: "real \<Rightarrow> int" where
  "floorLog2 x = (if x \<le> 0 then 0
                  else if x < 1 then floorLog2 (2 * x) - 1
                  else if 2 \<le> x then floorLog2 (x / 2) + 1
                  else 0)"
  by pat_completeness auto
termination
proof (relation "measure (\<lambda>x. if x < 1 then nat \<lceil>1 / x\<rceil> + 2 else nat \<lceil>x\<rceil>)")
  show "wf (measure (\<lambda>x::real. if x < 1 then nat \<lceil>1 / x\<rceil> + 2 else nat \<lceil>x\<rceil>))" by simp
next
  fix x :: real
  assume x: "\<not> x \<le> 0" "x < 1"
  have halve: "\<lceil>y / 2\<rceil> < \<lceil>y\<rceil>" if "2 \<le> y" for y :: real
  proof -
    have "y / 2 \<le> y - 1" using that by simp
    then have "\<lceil>y / 2\<rceil> \<le> \<lceil>y - 1\<rceil>" by (rule ceiling_mono)
    then show ?thesis by simp
  qed
  show "(2 * x, x) \<in> measure (\<lambda>x. if x < 1 then nat \<lceil>1 / x\<rceil> + 2 else nat \<lceil>x\<rceil>)"
  proof (cases "2 * x < 1")
    case True
    then have "2 \<le> 1 / x" using x by (simp add: field_simps)
    then have "\<lceil>1 / x / 2\<rceil> < \<lceil>1 / x\<rceil>" by (rule halve)
    moreover have "0 < \<lceil>1 / x / 2\<rceil>" using x by (simp add: field_simps)
    ultimately show ?thesis using True x by (simp add: field_simps)
  next
    case False
    have "\<lceil>2 * x\<rceil> \<le> 2" using x by (simp add: ceiling_le_iff)
    then have a: "nat \<lceil>2 * x\<rceil> \<le> 2" by simp
    have "0 < 1 / x" using x by simp
    then have "0 < \<lceil>1 / x\<rceil>" by (simp only: zero_less_ceiling)
    then have b: "1 \<le> nat \<lceil>1 / x\<rceil>" by linarith
    have m: "nat \<lceil>2 * x\<rceil> < nat \<lceil>1 / x\<rceil> + 2" using a b by linarith
    show ?thesis by (simp only: in_measure if_not_P[OF False] if_P[OF x(2)] m)
  qed
next
  fix x :: real
  assume x: "\<not> x \<le> 0" "\<not> x < 1" "2 \<le> x"
  have "x / 2 \<le> x - 1" using x by simp
  then have "\<lceil>x / 2\<rceil> \<le> \<lceil>x - 1\<rceil>" by (rule ceiling_mono)
  then have "\<lceil>x / 2\<rceil> < \<lceil>x\<rceil>" by simp
  moreover have "0 < \<lceil>x / 2\<rceil>" using x by simp
  ultimately show "(x / 2, x) \<in> measure (\<lambda>x. if x < 1 then nat \<lceil>1 / x\<rceil> + 2 else nat \<lceil>x\<rceil>)"
    using x by simp
qed

declare floorLog2.simps [simp del]

definition binadeExponent :: "real \<Rightarrow> int" where
  "binadeExponent x = max (floorLog2 \<bar>x\<bar>) (- 1022)"

definition ulp :: "real \<Rightarrow> real" where
  "ulp x = 2 powi (binadeExponent x - 52)"

definition fl :: "real \<Rightarrow> real" where
  "fl x = (if x = 0 then 0 else sgn x * (ulp x * of_int (rne (\<bar>x\<bar> / ulp x))))"

definition jsAdd :: "real \<Rightarrow> real \<Rightarrow> real" where
  "jsAdd x y = fl (x + y)"

definition jsSub :: "real \<Rightarrow> real \<Rightarrow> real" where
  "jsSub x y = fl (x - y)"

definition jsMul :: "real \<Rightarrow> real \<Rightarrow> real" where
  "jsMul x y = fl (x * y)"

definition jsDiv :: "real \<Rightarrow> real \<Rightarrow> real" where
  "jsDiv x y = fl (x / y)"

text \<open>The reals that are Numbers, and the integers that addition keeps exact.\<close>

definition isNumber :: "real \<Rightarrow> bool" where
  "isNumber x \<longleftrightarrow> fl x = x"

definition isInteger53 :: "real \<Rightarrow> bool" where
  "isInteger53 x \<longleftrightarrow> x \<in> \<int> \<and> \<bar>x\<bar> \<le> 2 ^ 53"

section \<open>Group orders: backend/models/GroupOrder.js\<close>

text \<open>
  The schema's \<open>status\<close> enum, a participant sub-document and the fields of a group
  order that \<open>addParticipant\<close> and \<open>removeParticipant\<close> read or write, together with
  \<open>maxParticipants\<close> and \<open>deadline\<close>, which the schema declares. A vendor id is
  represented by its \<open>toString()\<close> image, the only way the two methods look at it.
  Quantities are Numbers: nothing in the methods keeps them positive or integral. The
  deadline is a timestamp.
\<close>

datatype status = Active | TargetReached | Ordered | Delivered | Cancelled

record participant =
  vendor :: string
  quantity :: real

record groupOrder =
  targetQuantity :: real
  currentQuantity :: real
  maxParticipants :: real
  participants :: "participant list"
  status :: status
  deadline :: int

text \<open>
  The error names of the specification. A call of a method ends either by returning
  (\<open>Inr\<close> of the mutated document) or by throwing (\<open>Inl\<close>); the two methods below
  contain no \<open>throw\<close>.
\<close>

datatype error =
    OrderClosed | DeadlinePassed | CapacityExceeded | NotAParticipant
  | OrderLocked | InvalidStateTransition | UpdateConflict | AllocationExhausted

text \<open>\<open>Array.prototype.findIndex\<close>: the index of the first match, \<open>-1\<close> when there is none.\<close>

fun findIndexFrom :: "('a \<Rightarrow> bool) \<Rightarrow> int \<Rightarrow> 'a list \<Rightarrow> int" where
  "findIndexFrom P i [] = - 1"
| "findIndexFrom P i (x # xs) = (if P x then i else findIndexFrom P (i + 1) xs)"

definition findIndex :: "('a \<Rightarrow> bool) \<Rightarrow> 'a list \<Rightarrow> int" where
  "findIndex P xs = findIndexFrom P 0 xs"

text \<open>\<open>xs.splice(i, 1)\<close> for an index \<open>i \<ge> 0\<close>: the list without its element at \<open>i\<close>.\<close>

definition splice1 :: "int \<Rightarrow> 'a list \<Rightarrow> 'a list" where
  "splice1 i xs = take (nat i) xs @ drop (nat i + 1) xs"

text \<open>
  \<open>addParticipant\<close>. \<open>find\<close> yields a reference to the first matching sub-document, and
  \<open>+=\<close> mutates it in place: the model updates the list at the position of the first
  match. Without a match the new entry is pushed at the end.
\<close>

definition addParticipant :: "string \<Rightarrow> real \<Rightarrow> groupOrder \<Rightarrow> error + groupOrder" where
  "addParticipant vendorId qty g =
     (let existingParticipant = findIndex (\<lambda>p. vendor p = vendorId) (participants g);
          ps = (if existingParticipant \<noteq> - 1
                then (participants g)[nat existingParticipant :=
                       (participants g ! nat existingParticipant)
                         \<lparr>quantity := jsAdd (quantity (participants g ! nat existingParticipant)) qty\<rparr>]
                else participants g @ [\<lparr>vendor = vendorId, quantity = qty\<rparr>]);
          g1 = g\<lparr>participants := ps, currentQuantity := jsAdd (currentQuantity g) qty\<rparr>
      in Inr (if currentQuantity g1 \<ge> targetQuantity g1 \<and> status g1 = Active
              then g1\<lparr>status := TargetReached\<rparr> else g1))"

definition removeParticipant :: "string \<Rightarrow> groupOrder \<Rightarrow> error + groupOrder" where
  "removeParticipant vendorId g =
     (let participantIndex = findIndex (\<lambda>p. vendor p = vendorId) (participants g)
      in if participantIndex \<noteq> - 1
         then (let removedQuantity = quantity (participants g ! nat participantIndex);
                   g1 = g\<lparr>participants := splice1 participantIndex (participants g),
                          currentQuantity := jsSub (currentQuantity g) removedQuantity\<rparr>
               in Inr (if currentQuantity g1 < targetQuantity g1 \<and> status g1 = TargetReached
                       then g1\<lparr>status := Active\<rparr> else g1))
         else Inr g)"

text \<open>
  The quantity invariant: the running total is the sum of the participants' quantities (the
  sum of the numbers, not a rounded one); and the documents whose quantities are integers
  of at least 1, as the schema's \<open>min: 1\<close> on a quantity has it.
\<close>

definition quantityInvariant :: "groupOrder \<Rightarrow> bool" where
  "quantityInvariant g \<longleftrightarrow> currentQuantity g = sum_list (map quantity (participants g))"

definition integerQuantities :: "groupOrder \<Rightarrow> bool" where
  "integerQuantities g \<longleftrightarrow> list_all (\<lambda>p. quantity p \<in> \<int> \<and> 1 \<le> quantity p) (participants g)"


text \<open>
  \<open>returns r Q\<close>: the call \<open>r\<close> ended by returning, and the document it left
  satisfies \<open>Q\<close>.
\<close>

definition returns :: "error + 'a \<Rightarrow> ('a \<Rightarrow> bool) \<Rightarrow> bool" where
  "returns r Q = (case r of Inl _ \<Rightarrow> False | Inr x \<Rightarrow> Q x)"

text \<open>Whether a vendor has an entry, and the number of distinct vendors with one.\<close>

definition participates :: "string \<Rightarrow> groupOrder \<Rightarrow> bool" where
  "participates v g \<longleftrightarrow> v \<in> set (map vendor (participants g))"

definition distinctVendors :: "groupOrder \<Rightarrow> nat" where
  "distinctVendors g = length (remdups (map vendor (participants g)))"

section \<open>Order numbers: backend/models/Order.js\<close>

text \<open>
  The pre-save hook reads the clock through \<open>getFullYear\<close>, \<open>getMonth\<close> (0 to 11) and
  \<open>getDate\<close>, and the collection through one query on \<open>orderNumber\<close>. A date is the
  record of the three getters; the collection is the list of the order numbers stored in
  it; of an order document only \<open>orderNumber\<close> matters, absent (\<open>None\<close>) or a string.
\<close>

record date =
  getFullYear :: nat
  getMonth :: nat
  getDate :: nat

record order =
  orderNumber :: "string option"

text \<open>\<open>Number.prototype.toString\<close> on a non-negative integer: its decimal digits.\<close>

definition digitChar :: "nat \<Rightarrow> char" where
  "digitChar d = ''0123456789'' ! d"

fun toString :: "nat \<Rightarrow> string" where
  "toString n = (if n < 10 then [digitChar n] else toString (n div 10) @ [digitChar (n mod 10)])"

declare toString.simps [simp del]

text \<open>
  The sequence is a Number that may be \<open>NaN\<close> (\<open>parseInt\<close> of a string that starts with
  no digit): \<open>None\<close> stands for \<open>NaN\<close>, and \<open>NaN + 1\<close> is \<open>NaN\<close>.
\<close>

definition numberToString :: "nat option \<Rightarrow> string" where
  "numberToString x = (case x of None \<Rightarrow> ''NaN'' | Some n \<Rightarrow> toString n)"

text \<open>\<open>s.padStart(targetLength, c)\<close> for a pad string of one character.\<close>

definition padStart :: "nat \<Rightarrow> char \<Rightarrow> string \<Rightarrow> string" where
  "padStart targetLength c s = replicate (targetLength - length s) c @ s"

text \<open>
  \<open>parseInt\<close> reads the longest run of decimal digits at the start of the string and
  yields \<open>NaN\<close> when there is none. Leading white space, a sign and a \<open>0x\<close> prefix are
  not modelled; none occurs in a string of decimal digits.
\<close>

definition isDigit :: "char \<Rightarrow> bool" where
  "isDigit c \<longleftrightarrow> CHR ''0'' \<le> c \<and> c \<le> CHR ''9''"

definition digitValue :: "char \<Rightarrow> nat" where
  "digitValue c = of_char c - 48"

definition parseInt :: "string \<Rightarrow> nat option" where
  "parseInt s =
     (let ds = takeWhile isDigit s
      in if ds = [] then None else Some (foldl (\<lambda>acc c. 10 * acc + digitValue c) 0 ds))"

text \<open>\<open>s.slice(-n)\<close>: the last \<open>n\<close> characters, the whole string when it is shorter.\<close>

definition sliceLast :: "nat \<Rightarrow> string \<Rightarrow> string" where
  "sliceLast n s = drop (length s - n) s"

text \<open>
  The query \<open>findOne({orderNumber: /^VC<dateStr>/}).sort({orderNumber: -1})\<close>: among the
  stored order numbers that start with the prefix (the date string has digits only, so the
  regular expression is a plain prefix test), the greatest in the order of strings, or
  \<open>null\<close>. Strings are compared character by character, a proper prefix being smaller.
\<close>

definition startsWith :: "string \<Rightarrow> string \<Rightarrow> bool" where
  "startsWith pre s \<longleftrightarrow> take (length pre) s = pre"

definition findLastOrder :: "string \<Rightarrow> string list \<Rightarrow> string option" where
  "findLastOrder pre store =
     (case filter (startsWith pre) store of [] \<Rightarrow> None | x # xs \<Rightarrow> Some (fold max xs x))"

definition dateStr :: "date \<Rightarrow> string" where
  "dateStr d = toString (getFullYear d) @ padStart 2 CHR ''0'' (toString (getMonth d + 1))
                 @ padStart 2 CHR ''0'' (toString (getDate d))"

text \<open>
  The hook \<open>orderSchema.pre('save')\<close>. \<open>!this.orderNumber\<close> holds for an absent order
  number and for the empty string.
\<close>

definition preSave :: "date \<Rightarrow> string list \<Rightarrow> order \<Rightarrow> order" where
  "preSave d store ord =
     (if orderNumber ord = None \<or> orderNumber ord = Some []
      then (let lastOrder = findLastOrder (''VC'' @ dateStr d) store;
                sequence = (case lastOrder of None \<Rightarrow> Some 1
                            | Some l \<Rightarrow> map_option (\<lambda>lastSequence. lastSequence + 1)
                                          (parseInt (sliceLast 4 l)))
            in ord\<lparr>orderNumber :=
                 Some (''VC'' @ dateStr d @ padStart 4 CHR ''0'' (numberToString sequence))\<rparr>)
      else ord)"

text \<open>
  \<open>save()\<close> up to the write. Mongoose validates the document against the schema in its
  built-in pre-save hook, which runs before the hooks that the schema registers with
  \<open>pre('save')\<close>. \<open>orderNumber\<close> is declared \<open>required: true\<close>, and the required validator of
  a String path rejects an absent value and the empty string. The other required paths are
  taken to be present.
\<close>

datatype saveError = ValidationError

definition requiredOrderNumber :: "order \<Rightarrow> bool" where
  "requiredOrderNumber ord \<longleftrightarrow> orderNumber ord \<noteq> None \<and> orderNumber ord \<noteq> Some []"

definition save :: "date \<Rightarrow> string list \<Rightarrow> order \<Rightarrow> saveError + order" where
  "save d store ord =
     (if requiredOrderNumber ord then Inr (preSave d store ord) else Inl ValidationError)"

text \<open>
  For the statements about the hook: the order number of sequence \<open>k\<close> on day \<open>d\<close>; the
  dates whose year has four digits; and the sequence the specification asks for, given the
  sequence numbers already used that day: 1 when there is none, otherwise one more than
  the highest.
\<close>

definition formatOrderNumber :: "date \<Rightarrow> nat \<Rightarrow> string" where
  "formatOrderNumber d k = ''VC'' @ dateStr d @ padStart 4 CHR ''0'' (toString k)"

definition wfDate :: "date \<Rightarrow> bool" where
  "wfDate d \<longleftrightarrow> 1000 \<le> getFullYear d \<and> getFullYear d \<le> 9999 \<and> getMonth d \<le> 11
                \<and> 1 \<le> getDate d \<and> getDate d \<le> 31"

definition nextSequence :: "nat list \<Rightarrow> nat" where
  "nextSequence ks = (if ks = [] then 1 else Max (set ks) + 1)"

section \<open>Bulk prices: the Product model\<close>

text \<open>A bulk discount and the fields of a product that \<open>getBulkPrice\<close> reads, all Numbers.\<close>

record bulkDiscount =
  minQuantity :: real
  discountPercentage :: real

record product =
  price :: real
  bulkDiscounts :: "bulkDiscount list"

text \<open>
  The \<open>for ... of\<close> loop of \<open>getBulkPrice\<close>, with the running \<open>applicableDiscount\<close> as
  accumulator, and the method itself, which starts the loop at 0 and then computes
  \<open>this.price * (1 - applicableDiscount / 100)\<close> with three rounded operations.
\<close>

fun applicableDiscount :: "real \<Rightarrow> bulkDiscount list \<Rightarrow> real \<Rightarrow> real" where
  "applicableDiscount qty [] acc = acc"
| "applicableDiscount qty (discount # rest) acc =
     applicableDiscount qty rest
       (if qty \<ge> minQuantity discount \<and> discountPercentage discount > acc
        then discountPercentage discount else acc)"

definition getBulkPrice :: "real \<Rightarrow> product \<Rightarrow> real" where
  "getBulkPrice qty p =
     jsMul (price p) (jsSub 1 (jsDiv (applicableDiscount qty (bulkDiscounts p) 0) 100))"

text \<open>The discounts whose \<open>minQuantity\<close> is met by a quantity.\<close>

definition metDiscounts :: "real \<Rightarrow> product \<Rightarrow> bulkDiscount list" where
  "metDiscounts qty p = filter (\<lambda>d. minQuantity d \<le> qty) (bulkDiscounts p)"

section \<open>Rounding to binary64\<close>

lemma rne_of_int: "rne (of_int n) = n"
  by (simp add: rne_def)

lemma rne_floor_le: "\<lfloor>x\<rfloor> \<le> rne x"
  by (simp add: rne_def Let_def)

lemma rne_le_floor: "rne x \<le> \<lfloor>x\<rfloor> + 1"
  by (simp add: rne_def Let_def)

lemma rne_mono:
  assumes "x \<le> y"
  shows "rne x \<le> rne y"
proof (cases "\<lfloor>x\<rfloor> = \<lfloor>y\<rfloor>")
  case True
  have "x - of_int \<lfloor>x\<rfloor> \<le> y - of_int \<lfloor>y\<rfloor>" using assms True by simp
  then show ?thesis using True by (auto simp: rne_def Let_def)
next
  case False
  have "\<lfloor>x\<rfloor> \<le> \<lfloor>y\<rfloor>" using assms by (rule floor_mono)
  then have "\<lfloor>x\<rfloor> + 1 \<le> \<lfloor>y\<rfloor>" using False by simp
  then show ?thesis using rne_le_floor[of x] rne_floor_le[of y] by linarith
qed

lemma rne_ge_int: "of_int a \<le> x \<Longrightarrow> a \<le> rne x"
  using rne_mono[of "of_int a" x] by (simp add: rne_of_int)

lemma rne_le_int: "x \<le> of_int b \<Longrightarrow> rne x \<le> b"
  using rne_mono[of x "of_int b"] by (simp add: rne_of_int)

lemma floorLog2_bounds:
  "0 < x \<Longrightarrow> 2 powi floorLog2 x \<le> x \<and> x < 2 powi (floorLog2 x + 1)"
proof (induction x rule: floorLog2.induct)
  case (1 x)
  consider "x < 1" | "1 \<le> x" "x < 2" | "2 \<le> x" by linarith
  then show ?case
  proof cases
    case 1
    have e: "floorLog2 x = floorLog2 (2 * x) - 1"
      using 1 "1.prems" by (subst floorLog2.simps) simp
    have ih: "2 powi floorLog2 (2 * x) \<le> 2 * x \<and> 2 * x < 2 powi (floorLog2 (2 * x) + 1)"
      using "1.IH"(1) 1 "1.prems" by simp
    have "(2::real) powi floorLog2 (2 * x) = 2 powi (floorLog2 (2 * x) - 1) * 2"
      using power_int_add[of "2::real" "floorLog2 (2 * x) - 1" 1] by simp
    moreover have "(2::real) powi (floorLog2 (2 * x) + 1) = 2 powi floorLog2 (2 * x) * 2"
      using power_int_add[of "2::real" "floorLog2 (2 * x)" 1] by simp
    ultimately show ?thesis using ih by (simp add: e)
  next
    case 2
    have "floorLog2 x = 0" using 2 by (subst floorLog2.simps) simp
    then show ?thesis using 2 by simp
  next
    case 3
    have e: "floorLog2 x = floorLog2 (x / 2) + 1"
      using 3 by (subst floorLog2.simps) simp
    have ih: "2 powi floorLog2 (x / 2) \<le> x / 2 \<and> x / 2 < 2 powi (floorLog2 (x / 2) + 1)"
      using "1.IH"(2) 3 by simp
    have "(2::real) powi (floorLog2 (x / 2) + 1) = 2 powi floorLog2 (x / 2) * 2"
      using power_int_add[of "2::real" "floorLog2 (x / 2)" 1] by simp
    moreover have "(2::real) powi (floorLog2 (x / 2) + 1 + 1) = 2 powi (floorLog2 (x / 2) + 1) * 2"
      using power_int_add[of "2::real" "floorLog2 (x / 2) + 1" 1] by simp
    ultimately show ?thesis using ih by (simp add: e)
  qed
qed

lemma floorLog2_eqI:
  assumes "2 powi e \<le> x" "x < 2 powi (e + 1)"
  shows "floorLog2 x = e"
proof -
  have pos: "0 < x" using assms(1) by (smt (verit) zero_less_power_int)
  note b = floorLog2_bounds[OF pos]
  have "\<not> floorLog2 x < e"
  proof
    assume "floorLog2 x < e"
    then have "(2::real) powi (floorLog2 x + 1) \<le> 2 powi e"
      by (intro power_int_increasing) simp_all
    then show False using b assms(1) by linarith
  qed
  moreover have "\<not> e < floorLog2 x"
  proof
    assume "e < floorLog2 x"
    then have "(2::real) powi (e + 1) \<le> 2 powi floorLog2 x"
      by (intro power_int_increasing) simp_all
    then show False using b assms(2) by linarith
  qed
  ultimately show ?thesis by linarith
qed

lemma floorLog2_mono:
  assumes "0 < x" "x \<le> y"
  shows "floorLog2 x \<le> floorLog2 y"
proof (rule ccontr)
  assume "\<not> floorLog2 x \<le> floorLog2 y"
  then have "(2::real) powi (floorLog2 y + 1) \<le> 2 powi floorLog2 x"
    by (intro power_int_increasing) simp_all
  moreover have "0 < y" using assms by simp
  ultimately show False
    using floorLog2_bounds[OF assms(1)] floorLog2_bounds[OF \<open>0 < y\<close>] assms(2) by linarith
qed

lemma fl_0: "fl 0 = 0"
  by (simp add: fl_def)

lemma ulp_minus: "ulp (- x) = ulp x"
  by (simp add: ulp_def binadeExponent_def)

lemma ulp_pos: "0 < ulp x"
  by (simp add: ulp_def)

lemma fl_minus: "fl (- x) = - fl x"
  by (simp add: fl_def ulp_minus sgn_minus)

lemma fl_pos: "0 < x \<Longrightarrow> fl x = ulp x * of_int (rne (x / ulp x))"
  by (simp add: fl_def)

lemma fl_nonneg:
  assumes "0 \<le> x"
  shows "0 \<le> fl x"
proof (cases "x = 0")
  case True
  then show ?thesis by (simp add: fl_0)
next
  case False
  then have x: "0 < x" using assms by simp
  have "0 \<le> x / ulp x" using x ulp_pos[of x] by simp
  then have "0 \<le> rne (x / ulp x)" using rne_ge_int[of 0 "x / ulp x"] by simp
  then show ?thesis using ulp_pos[of x] by (simp add: fl_pos[OF x])
qed

lemma binadeExponent_pos:
  assumes "0 < x"
  shows "binadeExponent x = max (floorLog2 x) (- 1022)"
  using assms by (simp add: binadeExponent_def)

lemma pow2_add: "(2::real) powi (a + b) = 2 powi a * 2 powi b"
  by (rule power_int_add) simp

lemma binadeExponent_ge: "- 1022 \<le> binadeExponent x"
  by (simp add: binadeExponent_def)

lemma fl_upper:
  assumes x: "0 < x"
  shows "fl x \<le> 2 powi (binadeExponent x + 1)"
proof -
  let ?E = "binadeExponent x"
  have "floorLog2 x + 1 \<le> ?E + 1" by (simp add: binadeExponent_pos[OF x])
  then have "(2::real) powi (floorLog2 x + 1) \<le> 2 powi (?E + 1)"
    by (intro power_int_increasing) simp_all
  then have "x \<le> 2 powi (?E + 1)" using floorLog2_bounds[OF x] by linarith
  moreover have "(2::real) powi (?E + 1) = ulp x * 2 ^ 53"
    using pow2_add[of "?E - 52" 53] by (simp add: ulp_def add.commute)
  ultimately have "x / ulp x \<le> of_int (2 ^ 53)"
    using ulp_pos[of x] by (simp add: field_simps)
  then have "rne (x / ulp x) \<le> 2 ^ 53" by (rule rne_le_int)
  then have "of_int (rne (x / ulp x)) \<le> (2::real) ^ 53"
    by (metis of_int_le_iff of_int_numeral of_int_power)
  then have "ulp x * of_int (rne (x / ulp x)) \<le> ulp x * 2 ^ 53"
    using ulp_pos[of x] by (intro mult_left_mono) simp_all
  then show ?thesis using \<open>2 powi (?E + 1) = ulp x * 2 ^ 53\<close> by (simp add: fl_pos[OF x])
qed

lemma fl_lower:
  assumes x: "0 < x" and n: "- 1022 \<le> floorLog2 x"
  shows "2 powi (binadeExponent x) \<le> fl x"
proof -
  let ?E = "binadeExponent x"
  have E: "?E = floorLog2 x" using n by (simp add: binadeExponent_pos[OF x])
  have "(2::real) powi ?E \<le> x" using floorLog2_bounds[OF x] E by simp
  moreover have "(2::real) powi ?E = ulp x * 2 ^ 52"
    using pow2_add[of "?E - 52" 52] by (simp add: ulp_def)
  ultimately have "of_int (2 ^ 52) \<le> x / ulp x"
    using ulp_pos[of x] by (simp add: field_simps)
  then have "2 ^ 52 \<le> rne (x / ulp x)" by (rule rne_ge_int)
  then have "(2::real) ^ 52 \<le> of_int (rne (x / ulp x))"
    by (metis of_int_le_iff of_int_numeral of_int_power)
  then have "ulp x * 2 ^ 52 \<le> ulp x * of_int (rne (x / ulp x))"
    using ulp_pos[of x] by (intro mult_left_mono) simp_all
  then show ?thesis using \<open>2 powi ?E = ulp x * 2 ^ 52\<close> by (simp add: fl_pos[OF x])
qed

lemma fl_mono_pos:
  assumes x: "0 < x" and xy: "x \<le> y"
  shows "fl x \<le> fl y"
proof -
  have y: "0 < y" using x xy by simp
  have e: "floorLog2 x \<le> floorLog2 y" using x xy by (rule floorLog2_mono)
  then have E: "binadeExponent x \<le> binadeExponent y"
    by (simp add: binadeExponent_pos[OF x] binadeExponent_pos[OF y])
  show ?thesis
  proof (cases "binadeExponent x = binadeExponent y")
    case True
    then have u: "ulp x = ulp y" by (simp add: ulp_def)
    have "x / ulp y \<le> y / ulp y" using xy ulp_pos[of y] by (simp add: divide_right_mono)
    then have "rne (x / ulp y) \<le> rne (y / ulp y)" by (rule rne_mono)
    then have "ulp y * of_int (rne (x / ulp y)) \<le> ulp y * of_int (rne (y / ulp y))"
      using ulp_pos[of y] by (intro mult_left_mono) simp_all
    then show ?thesis by (simp add: fl_pos[OF x] fl_pos[OF y] u)
  next
    case False
    then have lt: "binadeExponent x < binadeExponent y" using E by simp
    have n: "- 1022 \<le> floorLog2 y"
      using lt binadeExponent_ge[of x] binadeExponent_pos[OF y] by linarith
    have "fl x \<le> 2 powi (binadeExponent x + 1)" by (rule fl_upper[OF x])
    also have "\<dots> \<le> 2 powi (binadeExponent y)"
      using lt by (intro power_int_increasing) simp_all
    also have "\<dots> \<le> fl y" by (rule fl_lower[OF y n])
    finally show ?thesis .
  qed
qed

lemma fl_mono:
  assumes "x \<le> y"
  shows "fl x \<le> fl y"
proof -
  consider "0 < x" | "x \<le> 0" "0 \<le> y" | "y < 0" by linarith
  then show ?thesis
  proof cases
    case 1
    then show ?thesis using assms by (rule fl_mono_pos)
  next
    case 2
    have "0 \<le> fl (- x)" using 2(1) by (intro fl_nonneg) simp
    then have "fl x \<le> 0" by (simp add: fl_minus)
    then show ?thesis using fl_nonneg[OF 2(2)] by linarith
  next
    case 3
    have "fl (- y) \<le> fl (- x)" using 3 assms by (intro fl_mono_pos) simp_all
    then show ?thesis by (simp add: fl_minus)
  qed
qed

lemma fl_representable_pos:
  assumes m: "0 < m" "m < 2 ^ 53" and k: "- 1074 \<le> k" and x: "x = of_int m * 2 powi k"
  shows "fl x = x"
proof -
  have pos: "0 < x" using m(1) x by simp
  let ?e = "floorLog2 x"
  let ?E = "binadeExponent x"
  have "of_int m < (2::real) ^ 53"
    using m(2) by (metis of_int_less_iff of_int_numeral of_int_power)
  then have "x < 2 ^ 53 * 2 powi k" using x by simp
  also have "\<dots> = 2 powi (k + 53)" using pow2_add[of k 53] by simp
  finally have "2 powi ?e < (2::real) powi (k + 53)" using floorLog2_bounds[OF pos] by linarith
  then have "?e < k + 53"
    by (smt (verit) power_int_increasing)
  then have E: "?E \<le> k + 52" using k by (simp add: binadeExponent_pos[OF pos])
  define n where "n = nat (k + 52 - ?E)"
  define u where "u = ulp x"
  have u: "0 < u" by (simp add: u_def ulp_pos)
  have kn: "k = (?E - 52) + int n" using E by (simp add: n_def)
  have "(2::real) powi k = 2 powi (?E - 52) * 2 powi (int n)"
    by (subst kn) (rule pow2_add)
  then have pk: "(2::real) powi k = u * 2 ^ n" by (simp add: ulp_def u_def)
  have xu: "x = of_int m * (u * 2 ^ n)" using x by (simp only: pk)
  have "x / u = of_int (m * 2 ^ n)" using u by (simp add: xu)
  then have "rne (x / u) = m * 2 ^ n" by (simp only: rne_of_int)
  then have "u * of_int (rne (x / u)) = x" by (simp add: xu)
  then show ?thesis by (simp add: fl_pos[OF pos] u_def)
qed

lemma fl_representable:
  assumes "\<bar>m\<bar> < 2 ^ 53" "- 1074 \<le> k"
  shows "fl (of_int m * 2 powi k) = of_int m * 2 powi k"
proof -
  consider "m = 0" | "0 < m" | "m < 0" by linarith
  then show ?thesis
  proof cases
    case 1
    then show ?thesis by (simp add: fl_0)
  next
    case 2
    then show ?thesis using assms by (intro fl_representable_pos[of m k]) simp_all
  next
    case 3
    then have "fl (of_int (- m) * 2 powi k) = of_int (- m) * 2 powi k"
      using assms by (intro fl_representable_pos[of "- m" k]) simp_all
    then have "fl (- (of_int m * 2 powi k)) = - (of_int m * 2 powi k)" by simp
    then show ?thesis by (simp only: fl_minus neg_equal_iff_equal)
  qed
qed

lemma fl_of_int:
  assumes "\<bar>n\<bar> \<le> 2 ^ 53"
  shows "fl (of_int n) = of_int n"
proof (cases "\<bar>n\<bar> < 2 ^ 53")
  case True
  then show ?thesis using fl_representable[of n 0] by simp
next
  case False
  then have "\<bar>n\<bar> = 2 ^ 53" using assms by simp
  then consider "n = 2 ^ 52 * 2" | "n = - (2 ^ 52) * 2" by (simp add: abs_if split: if_splits)
  then show ?thesis
  proof cases
    case 1
    then show ?thesis using fl_representable[of "2 ^ 52" 1] by simp
  next
    case 2
    then show ?thesis using fl_representable[of "- (2 ^ 52)" 1] by simp
  qed
qed

lemma fl_eval:
  assumes "2 powi e \<le> x" "x < 2 powi (e + 1)" "- 1022 \<le> e"
  shows "fl x = 2 powi (e - 52) * of_int (rne (x / 2 powi (e - 52)))"
proof -
  have pos: "0 < x" using assms(1) by (smt (verit) zero_less_power_int)
  have "floorLog2 x = e" using assms(1,2) by (rule floorLog2_eqI)
  then have "ulp x = 2 powi (e - 52)"
    using assms(3) by (simp add: ulp_def binadeExponent_pos[OF pos])
  then show ?thesis by (simp add: fl_pos[OF pos])
qed

lemma fl_Ints:
  assumes "x \<in> \<int>" "\<bar>x\<bar> \<le> 2 ^ 53"
  shows "fl x = x"
proof -
  from assms(1) obtain n where n: "x = of_int n" by (auto elim: Ints_cases)
  have "\<bar>n\<bar> \<le> 2 ^ 53"
  proof -
    have "of_int \<bar>n\<bar> \<le> (of_int (2 ^ 53) :: real)" using assms(2) n by simp
    then show ?thesis by (simp only: of_int_le_iff)
  qed
  then show ?thesis using fl_of_int[of n] n by simp
qed

lemma isInteger53_isNumber: "isInteger53 x \<Longrightarrow> isNumber x"
  by (simp add: isInteger53_def isNumber_def fl_Ints)

lemma jsAdd_int: "x \<in> \<int> \<Longrightarrow> y \<in> \<int> \<Longrightarrow> \<bar>x + y\<bar> \<le> 2 ^ 53 \<Longrightarrow> jsAdd x y = x + y"
  by (simp add: jsAdd_def fl_Ints)

lemma jsSub_int: "x \<in> \<int> \<Longrightarrow> y \<in> \<int> \<Longrightarrow> \<bar>x - y\<bar> \<le> 2 ^ 53 \<Longrightarrow> jsSub x y = x - y"
  by (simp add: jsSub_def fl_Ints)

lemma fl_numeral: "numeral w \<le> (9007199254740992::real) \<Longrightarrow> fl (numeral w) = numeral w"
  by (rule fl_Ints) simp_all

lemma fl_1: "fl 1 = 1"
  by (rule fl_Ints) simp_all

lemma fl_half: "fl (1 / 2) = 1 / 2"
  using fl_representable[of 1 "- 1"] by simp

text \<open>
  Two ties just above \<open>2 ^ 53\<close>, where the spacing is 2: \<open>2 ^ 53 + 1\<close> goes down and
  \<open>2 ^ 53 + 3\<close> goes up, each to the even significand.
\<close>

lemma fl_tie_down: "fl 9007199254740993 = 9007199254740992"
  by (simp add: fl_eval[of 53] rne_def)

lemma fl_tie_up: "fl 9007199254740995 = 9007199254740996"
  by (simp add: fl_eval[of 53] rne_def)

section \<open>Facts about findIndex\<close>

lemma findIndexFrom_eq:
  "findIndexFrom P i xs =
     (if \<exists>x\<in>set xs. P x then i + int (length (takeWhile (\<lambda>x. \<not> P x) xs)) else - 1)"
  by (induction xs arbitrary: i) auto

lemma findIndex_none: "\<forall>x\<in>set xs. \<not> P x \<Longrightarrow> findIndex P xs = - 1"
  by (simp add: findIndex_def findIndexFrom_eq)

lemma findIndex_first:
  "\<forall>x\<in>set pre. \<not> P x \<Longrightarrow> P y \<Longrightarrow> findIndex P (pre @ y # ys) = int (length pre)"
  by (simp add: findIndex_def findIndexFrom_eq takeWhile_append2)

lemma splice1_first: "splice1 (int (length pre)) (pre @ y # ys) = pre @ ys"
  by (simp add: splice1_def)

section \<open>The two methods, by cases on the first entry of the vendor\<close>

lemma addParticipant_absent:
  assumes "\<forall>p\<in>set (participants g). vendor p \<noteq> v"
  shows "addParticipant v q g =
     Inr (g\<lparr>participants := participants g @ [\<lparr>vendor = v, quantity = q\<rparr>],
            currentQuantity := jsAdd (currentQuantity g) q,
            status := (if jsAdd (currentQuantity g) q \<ge> targetQuantity g \<and> status g = Active
                       then TargetReached else status g)\<rparr>)"
  using assms by (simp add: addParticipant_def findIndex_none Let_def)

lemma addParticipant_present:
  assumes "participants g = pre @ y # ys" "\<forall>p\<in>set pre. vendor p \<noteq> v" "vendor y = v"
  shows "addParticipant v q g =
     Inr (g\<lparr>participants := pre @ y\<lparr>quantity := jsAdd (quantity y) q\<rparr> # ys,
            currentQuantity := jsAdd (currentQuantity g) q,
            status := (if jsAdd (currentQuantity g) q \<ge> targetQuantity g \<and> status g = Active
                       then TargetReached else status g)\<rparr>)"
  using assms by (simp add: addParticipant_def findIndex_first Let_def)

lemma removeParticipant_absent:
  assumes "\<forall>p\<in>set (participants g). vendor p \<noteq> v"
  shows "removeParticipant v g = Inr g"
  using assms by (simp add: removeParticipant_def findIndex_none Let_def)

lemma removeParticipant_present:
  assumes "participants g = pre @ y # ys" "\<forall>p\<in>set pre. vendor p \<noteq> v" "vendor y = v"
  shows "removeParticipant v g =
     Inr (g\<lparr>participants := pre @ ys,
            currentQuantity := jsSub (currentQuantity g) (quantity y),
            status := (if jsSub (currentQuantity g) (quantity y) < targetQuantity g
                          \<and> status g = TargetReached
                       then Active else status g)\<rparr>)"
  using assms by (simp add: removeParticipant_def findIndex_first splice1_first Let_def)

lemma first_entry_cases:
  obtains (absent) "\<forall>p\<in>set (participants g). vendor p \<noteq> v"
  | (present) pre y ys where "participants g = pre @ y # ys" "\<forall>p\<in>set pre. vendor p \<noteq> v" "vendor y = v"
proof (cases "\<exists>p\<in>set (participants g). vendor p = v")
  case True
  then obtain pre y ys where "participants g = pre @ y # ys" "vendor y = v" "\<forall>p\<in>set pre. \<not> vendor p = v"
    using split_list_first_prop[of "participants g" "\<lambda>p. vendor p = v"] by blast
  then show ?thesis using present by blast
next
  case False
  then show ?thesis using absent by blast
qed

lemma not_participates_iff: "\<not> participates v g \<longleftrightarrow> (\<forall>p\<in>set (participants g). vendor p \<noteq> v)"
  by (auto simp: participates_def)



lemma sum_quantities_Ints:
  "list_all (\<lambda>p. quantity p \<in> \<int> \<and> 1 \<le> quantity p) ps \<Longrightarrow>
   sum_list (map quantity ps) \<in> \<int> \<and> 0 \<le> sum_list (map quantity ps)"
  by (induction ps) auto

lemma integerQuantities_first:
  assumes "integerQuantities g" "participants g = pre @ y # ys"
  shows "quantity y \<in> \<int>" "1 \<le> quantity y"
    "sum_list (map quantity pre) \<in> \<int>" "0 \<le> sum_list (map quantity pre)"
    "sum_list (map quantity ys) \<in> \<int>" "0 \<le> sum_list (map quantity ys)"
  using assms sum_quantities_Ints[of pre] sum_quantities_Ints[of ys]
  by (simp_all add: integerQuantities_def)

text \<open>
  Claim C2, as amended. Let the quantities of the participants be integers of at least 1
  and \<open>currentQuantity\<close> their sum. Then \<open>addParticipant\<close> with an integer quantity of at
  least 1 that keeps the total at or below \<open>2 ^ 53\<close> returns, and so does
  \<open>removeParticipant\<close> when the total is at most \<open>2 ^ 53\<close>; the document each leaves has
  \<open>currentQuantity\<close> equal to the sum of its quantities, which are again integers of at
  least 1, whether or not the vendor has an entry and whatever the status is.
\<close>

theorem quantityInvariant_preserved_integers:
  assumes inv: "quantityInvariant g" and ints: "integerQuantities g"
  shows "(q \<in> \<int> \<and> 1 \<le> q \<and> currentQuantity g + q \<le> 2 ^ 53 \<longrightarrow>
            returns (addParticipant v q g) (\<lambda>g'. quantityInvariant g' \<and> integerQuantities g')) \<and>
         (currentQuantity g \<le> 2 ^ 53 \<longrightarrow>
            returns (removeParticipant v g) (\<lambda>g'. quantityInvariant g' \<and> integerQuantities g'))"
proof (cases g v rule: first_entry_cases)
  case absent
  have tot: "currentQuantity g \<in> \<int>" "0 \<le> currentQuantity g"
    using inv ints sum_quantities_Ints[of "participants g"]
    by (simp_all add: quantityInvariant_def integerQuantities_def)
  have add: "jsAdd (currentQuantity g) q = currentQuantity g + q"
    if "q \<in> \<int> \<and> 1 \<le> q \<and> currentQuantity g + q \<le> 2 ^ 53"
    using that tot by (intro jsAdd_int) simp_all
  show ?thesis using inv ints add
    by (simp add: addParticipant_absent[OF absent] removeParticipant_absent[OF absent]
        returns_def quantityInvariant_def integerQuantities_def)
next
  case (present pre y ys)
  note f = integerQuantities_first[OF ints present(1)]
  have tot: "currentQuantity g = sum_list (map quantity pre) + quantity y + sum_list (map quantity ys)"
    using inv present(1) by (simp add: quantityInvariant_def)
  have totZ: "currentQuantity g \<in> \<int>" using tot f by simp
  have rest: "list_all (\<lambda>p. quantity p \<in> \<int> \<and> 1 \<le> quantity p) pre"
    "list_all (\<lambda>p. quantity p \<in> \<int> \<and> 1 \<le> quantity p) ys"
    using ints present(1) by (simp_all add: integerQuantities_def)
  have add: "returns (addParticipant v q g) (\<lambda>g'. quantityInvariant g' \<and> integerQuantities g')"
    if h: "q \<in> \<int> \<and> 1 \<le> q \<and> currentQuantity g + q \<le> 2 ^ 53"
  proof -
    have 1: "jsAdd (currentQuantity g) q = currentQuantity g + q"
      using h tot totZ f by (intro jsAdd_int) simp_all
    have 2: "jsAdd (quantity y) q = quantity y + q"
      using h tot f by (intro jsAdd_int) simp_all
    have 3: "quantity y + q \<in> \<int>" "1 \<le> quantity y + q" using h f by simp_all
    have e: "currentQuantity g + q =
        sum_list (map quantity pre) + (quantity y + q + sum_list (map quantity ys))"
      using tot by simp
    show ?thesis using rest 3
      by (simp add: addParticipant_present[OF present] returns_def quantityInvariant_def
          integerQuantities_def 1 2 e)
  qed
  have rem: "returns (removeParticipant v g) (\<lambda>g'. quantityInvariant g' \<and> integerQuantities g')"
    if h: "currentQuantity g \<le> 2 ^ 53"
  proof -
    have 1: "jsSub (currentQuantity g) (quantity y) = currentQuantity g - quantity y"
      using h tot totZ f by (intro jsSub_int) simp_all
    have e: "currentQuantity g - quantity y =
        sum_list (map quantity pre) + sum_list (map quantity ys)"
      using tot by simp
    show ?thesis using rest
      by (simp add: removeParticipant_present[OF present] returns_def quantityInvariant_def
          integerQuantities_def 1 e)
  qed
  show ?thesis using add rem by blast
qed

theorem quantityInvariant_preserved_integers_witness:
  "quantityInvariant \<lparr>targetQuantity = 100, currentQuantity = 15, maxParticipants = 50,
       participants = [\<lparr>vendor = ''v1'', quantity = 10\<rparr>, \<lparr>vendor = ''v2'', quantity = 5\<rparr>],
       status = Active, deadline = 1000\<rparr> \<and>
   returns (addParticipant ''v2'' 7 \<lparr>targetQuantity = 100, currentQuantity = 15, maxParticipants = 50,
       participants = [\<lparr>vendor = ''v1'', quantity = 10\<rparr>, \<lparr>vendor = ''v2'', quantity = 5\<rparr>],
       status = Active, deadline = 1000\<rparr>) quantityInvariant \<and>
   returns (removeParticipant ''v2'' \<lparr>targetQuantity = 100, currentQuantity = 15, maxParticipants = 50,
       participants = [\<lparr>vendor = ''v1'', quantity = 10\<rparr>, \<lparr>vendor = ''v2'', quantity = 5\<rparr>],
       status = Active, deadline = 1000\<rparr>) quantityInvariant"
proof -
  let ?g = "\<lparr>targetQuantity = 100, currentQuantity = 15, maxParticipants = 50,
       participants = [\<lparr>vendor = ''v1'', quantity = 10\<rparr>, \<lparr>vendor = ''v2'', quantity = 5\<rparr>],
       status = Active, deadline = 1000\<rparr>"
  have h: "quantityInvariant ?g" by (simp add: quantityInvariant_def)
  have i: "integerQuantities ?g" by (simp add: integerQuantities_def)
  show ?thesis
    using h quantityInvariant_preserved_integers[OF h i, of 7 "''v2''"]
    by (simp add: returns_def split: sum.splits)
qed

text \<open>
  Claim C2 as stated fails where \<open>+=\<close> rounds: with one participant of quantity \<open>2 ^ 53\<close>
  and that total, a join with quantity 1 leaves the total at \<open>2 ^ 53\<close>, while the quantities
  then sum to \<open>2 ^ 53 + 1\<close>.
\<close>

theorem quantityInvariant_rounding_counterexample:
  "quantityInvariant \<lparr>targetQuantity = 100, currentQuantity = 9007199254740992, maxParticipants = 50,
       participants = [\<lparr>vendor = ''v0'', quantity = 9007199254740992\<rparr>],
       status = TargetReached, deadline = 1000\<rparr> \<and>
   addParticipant ''v1'' 1
      \<lparr>targetQuantity = 100, currentQuantity = 9007199254740992, maxParticipants = 50,
       participants = [\<lparr>vendor = ''v0'', quantity = 9007199254740992\<rparr>],
       status = TargetReached, deadline = 1000\<rparr>
    = Inr \<lparr>targetQuantity = 100, currentQuantity = 9007199254740992, maxParticipants = 50,
       participants = [\<lparr>vendor = ''v0'', quantity = 9007199254740992\<rparr>,
                       \<lparr>vendor = ''v1'', quantity = 1\<rparr>],
       status = TargetReached, deadline = 1000\<rparr> \<and>
   \<not> quantityInvariant \<lparr>targetQuantity = 100, currentQuantity = 9007199254740992, maxParticipants = 50,
       participants = [\<lparr>vendor = ''v0'', quantity = 9007199254740992\<rparr>,
                       \<lparr>vendor = ''v1'', quantity = 1\<rparr>],
       status = TargetReached, deadline = 1000\<rparr>"
  by (simp add: quantityInvariant_def addParticipant_def findIndex_def Let_def jsAdd_def fl_tie_down)

section \<open>Joining up to the target and leaving again\<close>

text \<open>
  Claim C3, as amended. For a group order in status active whose total is below the target,
  a vendor \<open>v\<close> without an entry, and a total, a quantity \<open>q\<close> and a sum of the two that are
  integers of magnitude at most \<open>2 ^ 53\<close>: \<open>addParticipant v q\<close> with
  \<open>currentQuantity + q \<ge> targetQuantity\<close> sets the status to target_reached, and
  \<open>removeParticipant v\<close> right after it removes the entry of \<open>v\<close>, restores the
  participants and \<open>currentQuantity\<close> and sets the status back to active. Moreover
  \<open>removeParticipant\<close> changes the status of no group order except from target_reached
  to active: ordered, delivered and cancelled are kept.
\<close>

theorem join_reaching_target_then_leave:
  "(status g = Active \<and> \<not> participates v g \<and> currentQuantity g < targetQuantity g \<and>
      isInteger53 (currentQuantity g) \<and> isInteger53 q \<and> isInteger53 (currentQuantity g + q) \<and>
      targetQuantity g \<le> currentQuantity g + q \<longrightarrow>
      returns (addParticipant v q g) (\<lambda>g1. status g1 = TargetReached \<and>
        returns (removeParticipant v g1) (\<lambda>g2. \<not> participates v g2 \<and>
          participants g2 = participants g \<and> currentQuantity g2 = currentQuantity g \<and>
          status g2 = Active))) \<and>
   returns (removeParticipant w h) (\<lambda>h'. status h' = status h \<or>
      (status h = TargetReached \<and> status h' = Active))"
proof (intro conjI impI)
  assume a: "status g = Active \<and> \<not> participates v g \<and> currentQuantity g < targetQuantity g \<and>
      isInteger53 (currentQuantity g) \<and> isInteger53 q \<and> isInteger53 (currentQuantity g + q) \<and>
      targetQuantity g \<le> currentQuantity g + q"
  then have abs: "\<forall>p\<in>set (participants g). vendor p \<noteq> v"
    by (simp add: not_participates_iff)
  have plus: "jsAdd (currentQuantity g) q = currentQuantity g + q"
    using a by (intro jsAdd_int) (simp_all add: isInteger53_def)
  have minus: "jsSub (currentQuantity g + q) q = currentQuantity g"
    using a jsSub_int[of "currentQuantity g + q" q] by (simp add: isInteger53_def)
  define g1 where "g1 = g\<lparr>participants := participants g @ [\<lparr>vendor = v, quantity = q\<rparr>],
            currentQuantity := currentQuantity g + q, status := TargetReached\<rparr>"
  have add: "addParticipant v q g = Inr g1"
    using a by (simp add: addParticipant_absent[OF abs] g1_def plus)
  have p1: "participants g1 = participants g @ \<lparr>vendor = v, quantity = q\<rparr> # []"
    by (simp add: g1_def)
  have "removeParticipant v g1 =
     Inr (g1\<lparr>participants := participants g @ [],
            currentQuantity := jsSub (currentQuantity g1) (quantity \<lparr>vendor = v, quantity = q\<rparr>),
            status := (if jsSub (currentQuantity g1) (quantity \<lparr>vendor = v, quantity = q\<rparr>)
                            < targetQuantity g1 \<and> status g1 = TargetReached
                       then Active else status g1)\<rparr>)"
    by (rule removeParticipant_present[OF p1 abs]) simp
  also have "\<dots> = Inr g"
    using a by (simp add: g1_def minus)
  finally have rem: "removeParticipant v g1 = Inr g" .
  show "returns (addParticipant v q g) (\<lambda>g1. status g1 = TargetReached \<and>
        returns (removeParticipant v g1) (\<lambda>g2. \<not> participates v g2 \<and>
          participants g2 = participants g \<and> currentQuantity g2 = currentQuantity g \<and>
          status g2 = Active))"
    using a by (simp add: add rem returns_def) (simp add: g1_def)
next
  show "returns (removeParticipant w h) (\<lambda>h'. status h' = status h \<or>
      (status h = TargetReached \<and> status h' = Active))"
  proof (cases h w rule: first_entry_cases)
    case absent
    then show ?thesis by (simp add: removeParticipant_absent returns_def)
  next
    case (present pre y ys)
    show ?thesis by (simp add: removeParticipant_present[OF present] returns_def)
  qed
qed

text \<open>
  The example of the specification: target 100, \<open>join(v1, 100)\<close>, then \<open>leave(v1)\<close>;
  and a leave on an ordered group order, whose status stays ordered.
\<close>

theorem join_reaching_target_then_leave_witness:
  "returns (addParticipant ''v1'' 100
      \<lparr>targetQuantity = 100, currentQuantity = 0, maxParticipants = 50, participants = [],
       status = Active, deadline = 1000\<rparr>)
     (\<lambda>g1. status g1 = TargetReached \<and>
        returns (removeParticipant ''v1'' g1) (\<lambda>g2. \<not> participates ''v1'' g2 \<and>
          participants g2 = [] \<and> currentQuantity g2 = 0 \<and> status g2 = Active)) \<and>
   returns (removeParticipant ''v1''
      \<lparr>targetQuantity = 100, currentQuantity = 100, maxParticipants = 50,
       participants = [\<lparr>vendor = ''v1'', quantity = 100\<rparr>], status = Ordered, deadline = 1000\<rparr>)
     (\<lambda>h'. status h' = Ordered)"
  using join_reaching_target_then_leave [of
      "\<lparr>targetQuantity = 100, currentQuantity = 0, maxParticipants = 50, participants = [],
       status = Active, deadline = 1000\<rparr>" "''v1''" 100 "''v1''"
      "\<lparr>targetQuantity = 100, currentQuantity = 100, maxParticipants = 50,
       participants = [\<lparr>vendor = ''v1'', quantity = 100\<rparr>], status = Ordered, deadline = 1000\<rparr>"]
  by (simp add: participates_def isInteger53_def)

text \<open>
  Claim C3 as stated fails where the two operations round: target 4, total 3, a join with
  quantity \<open>2 ^ 53\<close> gives the total \<open>2 ^ 53 + 4\<close> and target_reached; the leave gives the
  total 4, not 3, which is not below the target, so the status stays target_reached.
\<close>

theorem join_then_leave_rounding_counterexample:
  "addParticipant ''v1'' 9007199254740992
      \<lparr>targetQuantity = 4, currentQuantity = 3, maxParticipants = 50,
       participants = [\<lparr>vendor = ''v0'', quantity = 3\<rparr>], status = Active, deadline = 1000\<rparr>
    = Inr \<lparr>targetQuantity = 4, currentQuantity = 9007199254740996, maxParticipants = 50,
       participants = [\<lparr>vendor = ''v0'', quantity = 3\<rparr>,
                       \<lparr>vendor = ''v1'', quantity = 9007199254740992\<rparr>],
       status = TargetReached, deadline = 1000\<rparr> \<and>
   removeParticipant ''v1''
      \<lparr>targetQuantity = 4, currentQuantity = 9007199254740996, maxParticipants = 50,
       participants = [\<lparr>vendor = ''v0'', quantity = 3\<rparr>,
                       \<lparr>vendor = ''v1'', quantity = 9007199254740992\<rparr>],
       status = TargetReached, deadline = 1000\<rparr>
    = Inr \<lparr>targetQuantity = 4, currentQuantity = 4, maxParticipants = 50,
       participants = [\<lparr>vendor = ''v0'', quantity = 3\<rparr>], status = TargetReached, deadline = 1000\<rparr>"
  by (simp add: addParticipant_def removeParticipant_def findIndex_def splice1_def Let_def
      jsAdd_def jsSub_def fl_tie_up fl_numeral)

section \<open>Repeated joins accumulate\<close>



section \<open>The cap on participants\<close>

lemma distinct_count_snoc: "x \<notin> set xs \<Longrightarrow> length (remdups (xs @ [x])) = length (remdups xs) + 1"
  by (simp add: length_remdups_card_conv)

text \<open>
  Claim C6, as amended. \<open>addParticipant\<close> does not read \<open>maxParticipants\<close> and never
  fails: a join by a vendor without an entry always adds one entry and one distinct
  vendor, whatever the cap is; a join by a vendor with an entry changes neither count and
  is never rejected; and the outcome is the same for every value of \<open>maxParticipants\<close>.
\<close>

theorem addParticipant_ignores_maxParticipants:
  "(\<not> participates v g \<longrightarrow>
      returns (addParticipant v q g) (\<lambda>g'.
        length (participants g') = length (participants g) + 1 \<and>
        distinctVendors g' = distinctVendors g + 1)) \<and>
   (participates v g \<longrightarrow>
      returns (addParticipant v q g) (\<lambda>g'.
        length (participants g') = length (participants g) \<and>
        distinctVendors g' = distinctVendors g)) \<and>
   addParticipant v q (g\<lparr>maxParticipants := m\<rparr>) =
     map_sum id (\<lambda>g'. g'\<lparr>maxParticipants := m\<rparr>) (addParticipant v q g)"
proof (cases g v rule: first_entry_cases)
  case absent
  then have np: "\<not> participates v g" by (simp add: not_participates_iff)
  have nv: "v \<notin> set (map vendor (participants g))" using np by (simp add: participates_def)
  have abs': "\<forall>p\<in>set (participants (g\<lparr>maxParticipants := m\<rparr>)). vendor p \<noteq> v"
    using absent by simp
  show ?thesis using np distinct_count_snoc[OF nv]
    by (simp add: addParticipant_absent[OF absent] addParticipant_absent[OF abs']
        returns_def distinctVendors_def)
next
  case (present pre y ys)
  have pv: "participates v g" using present by (auto simp: participates_def)
  have pres': "participants (g\<lparr>maxParticipants := m\<rparr>) = pre @ y # ys"
    using present by simp
  have "length (remdups (map vendor (pre @ y\<lparr>quantity := jsAdd (quantity y) q\<rparr> # ys)))
      = length (remdups (map vendor (pre @ y # ys)))"
    by simp
  then show ?thesis using pv present
    by (simp add: addParticipant_present[OF present]
        addParticipant_present[OF pres' present(2,3)] returns_def distinctVendors_def)
qed

theorem addParticipant_ignores_maxParticipants_witness:
  "returns (addParticipant ''v2'' 3
      \<lparr>targetQuantity = 100, currentQuantity = 5, maxParticipants = 1,
       participants = [\<lparr>vendor = ''v1'', quantity = 5\<rparr>], status = Active, deadline = 1000\<rparr>)
     (\<lambda>g'. length (participants g') = 2 \<and> distinctVendors g' = 2) \<and>
   returns (addParticipant ''v1'' 3
      \<lparr>targetQuantity = 100, currentQuantity = 5, maxParticipants = 1,
       participants = [\<lparr>vendor = ''v1'', quantity = 5\<rparr>], status = Active, deadline = 1000\<rparr>)
     (\<lambda>g'. length (participants g') = 1 \<and> distinctVendors g' = 1)"
  using addParticipant_ignores_maxParticipants [of "''v2''"
      "\<lparr>targetQuantity = 100, currentQuantity = 5, maxParticipants = 1,
       participants = [\<lparr>vendor = ''v1'', quantity = 5\<rparr>], status = Active, deadline = 1000\<rparr>" 3 1]
    addParticipant_ignores_maxParticipants [of "''v1''"
      "\<lparr>targetQuantity = 100, currentQuantity = 5, maxParticipants = 1,
       participants = [\<lparr>vendor = ''v1'', quantity = 5\<rparr>], status = Active, deadline = 1000\<rparr>" 3 1]
  by (simp add: participates_def distinctVendors_def numeral_2_eq_2)

text \<open>
  Claim C6 as stated fails: with \<open>maxParticipants = 1\<close> and one participant, a join by a
  second vendor returns, and the group order then has two distinct vendors.
\<close>

theorem maxParticipants_exceeded_counterexample:
  "addParticipant ''v2'' 3
      \<lparr>targetQuantity = 100, currentQuantity = 5, maxParticipants = 1,
       participants = [\<lparr>vendor = ''v1'', quantity = 5\<rparr>], status = Active, deadline = 1000\<rparr>
    = Inr \<lparr>targetQuantity = 100, currentQuantity = 8, maxParticipants = 1,
       participants = [\<lparr>vendor = ''v1'', quantity = 5\<rparr>, \<lparr>vendor = ''v2'', quantity = 3\<rparr>],
       status = Active, deadline = 1000\<rparr> \<and>
   distinctVendors \<lparr>targetQuantity = 100, currentQuantity = 8, maxParticipants = 1,
       participants = [\<lparr>vendor = ''v1'', quantity = 5\<rparr>, \<lparr>vendor = ''v2'', quantity = 3\<rparr>],
       status = Active, deadline = 1000\<rparr> = 2"
  by (simp add: addParticipant_def findIndex_def Let_def distinctVendors_def jsAdd_def fl_numeral)

section \<open>Joining a closed or expired group order\<close>




section \<open>Leaving without an entry\<close>

text \<open>
  Claim C8, as amended. For a vendor without an entry, \<open>removeParticipant\<close> returns
  without an error, and the group order is exactly as before the call.
\<close>

theorem removeParticipant_non_participant:
  "\<not> participates v g \<Longrightarrow> removeParticipant v g = Inr g"
  by (simp add: removeParticipant_absent not_participates_iff)

theorem removeParticipant_non_participant_witness:
  "\<not> participates ''v2''
      \<lparr>targetQuantity = 100, currentQuantity = 5, maxParticipants = 50,
       participants = [\<lparr>vendor = ''v1'', quantity = 5\<rparr>], status = Active, deadline = 1000\<rparr> \<and>
   removeParticipant ''v2''
      \<lparr>targetQuantity = 100, currentQuantity = 5, maxParticipants = 50,
       participants = [\<lparr>vendor = ''v1'', quantity = 5\<rparr>], status = Active, deadline = 1000\<rparr>
    = Inr \<lparr>targetQuantity = 100, currentQuantity = 5, maxParticipants = 50,
       participants = [\<lparr>vendor = ''v1'', quantity = 5\<rparr>], status = Active, deadline = 1000\<rparr>"
proof -
  have h: "\<not> participates ''v2''
      \<lparr>targetQuantity = 100, currentQuantity = 5, maxParticipants = 50,
       participants = [\<lparr>vendor = ''v1'', quantity = 5\<rparr>], status = Active, deadline = 1000\<rparr>"
    by (simp add: participates_def)
  show ?thesis using h removeParticipant_non_participant [OF h] by simp
qed

text \<open>Claim C8 as stated fails: the call does not end in NotAParticipant.\<close>

theorem leave_non_participant_counterexample:
  "removeParticipant ''v2''
      \<lparr>targetQuantity = 100, currentQuantity = 5, maxParticipants = 50,
       participants = [\<lparr>vendor = ''v1'', quantity = 5\<rparr>], status = Active, deadline = 1000\<rparr>
    \<noteq> Inl NotAParticipant"
  by (simp add: removeParticipant_def findIndex_def Let_def)

section \<open>Leaving an ordered, delivered or cancelled group order\<close>




section \<open>Decimal digits and zero padding\<close>

lemma replicate_numeral: "replicate (numeral k) x = x # replicate (pred_numeral k) x"
  by (simp add: numeral_eq_Suc)

lemma digit_cases:
  "a < 10 \<Longrightarrow> a = 0 \<or> a = 1 \<or> a = 2 \<or> a = 3 \<or> a = 4 \<or> a = 5 \<or> a = 6 \<or> a = 7 \<or> a = 8 \<or> a = (9::nat)"
  by arith

lemma of_char_digitChar:
  assumes "a < 10"
  shows "of_char (digitChar a) = 48 + a"
  using digit_cases[OF assms] by (elim disjE) (simp_all add: digitChar_def)

lemma isDigit_digitChar: "a < 10 \<Longrightarrow> isDigit (digitChar a)"
  by (simp add: isDigit_def less_eq_char_def of_char_digitChar)

lemma digitValue_digitChar: "a < 10 \<Longrightarrow> digitValue (digitChar a) = a"
  by (simp add: digitValue_def of_char_digitChar)

lemma digitChar_less: "a < 10 \<Longrightarrow> b < 10 \<Longrightarrow> digitChar a < digitChar b \<longleftrightarrow> a < b"
  by (simp add: less_char_def of_char_digitChar)

lemma digitChar_eq: "a < 10 \<Longrightarrow> b < 10 \<Longrightarrow> digitChar a = digitChar b \<longleftrightarrow> a = b"
  by (metis digitValue_digitChar)

lemma digitChar_0: "digitChar 0 = CHR ''0''"
  by (simp add: digitChar_def)

lemma toString_1: "n < 10 \<Longrightarrow> toString n = [digitChar n]"
  by (simp add: toString.simps)

lemma toString_2:
  "10 \<le> n \<Longrightarrow> n < 100 \<Longrightarrow> toString n = [digitChar (n div 10), digitChar (n mod 10)]"
  by (subst toString.simps) (simp add: toString_1)

lemma toString_3:
  "100 \<le> n \<Longrightarrow> n < 1000 \<Longrightarrow>
   toString n = [digitChar (n div 100), digitChar (n div 10 mod 10), digitChar (n mod 10)]"
  by (subst toString.simps) (simp add: toString_2 div_mult2_eq[symmetric])

lemma toString_4:
  "1000 \<le> n \<Longrightarrow> n < 10000 \<Longrightarrow>
   toString n = [digitChar (n div 1000), digitChar (n div 100 mod 10), digitChar (n div 10 mod 10),
                 digitChar (n mod 10)]"
  by (subst toString.simps) (simp add: toString_3 div_mult2_eq[symmetric])

lemma pad4:
  assumes "n < 10000"
  shows "padStart 4 CHR ''0'' (toString n) =
     [digitChar (n div 1000), digitChar (n div 100 mod 10), digitChar (n div 10 mod 10),
      digitChar (n mod 10)]"
proof -
  consider "n < 10" | "10 \<le> n" "n < 100" | "100 \<le> n" "n < 1000" | "1000 \<le> n" "n < 10000"
    using assms by linarith
  then show ?thesis
  proof cases
    case 1
    then show ?thesis by (simp add: toString_1 padStart_def replicate_numeral digitChar_0)
  next
    case 2
    then show ?thesis by (simp add: toString_2 padStart_def replicate_numeral digitChar_0)
  next
    case 3
    then show ?thesis by (simp add: toString_3 padStart_def replicate_numeral digitChar_0)
  next
    case 4
    then show ?thesis by (simp add: toString_4 padStart_def)
  qed
qed

lemma pad2:
  assumes "n < 100"
  shows "padStart 2 CHR ''0'' (toString n) = [digitChar (n div 10), digitChar (n mod 10)]"
proof (cases "n < 10")
  case True
  then show ?thesis by (simp add: toString_1 padStart_def replicate_numeral digitChar_0)
next
  case False
  then show ?thesis using assms by (simp add: toString_2 padStart_def)
qed

lemma pad4_length: "n < 10000 \<Longrightarrow> length (padStart 4 CHR ''0'' (toString n)) = 4"
  by (simp add: pad4)

lemma pad4_digits: "n < 10000 \<Longrightarrow> list_all isDigit (padStart 4 CHR ''0'' (toString n))"
  by (simp add: pad4 isDigit_digitChar)

lemma digits_sum:
  "1000 * (n div 1000) + 100 * (n div 100 mod 10) + 10 * (n div 10 mod 10) + n mod 10 = (n::nat)"
proof -
  have 1: "n = 10 * (n div 10) + n mod 10" by simp
  have 2: "n div 10 = 10 * (n div 100) + n div 10 mod 10"
    using div_mult_mod_eq[of "n div 10" 10] by (simp add: div_mult2_eq[symmetric])
  have 3: "n div 100 = 10 * (n div 1000) + n div 100 mod 10"
    using div_mult_mod_eq[of "n div 100" 10] by (simp add: div_mult2_eq[symmetric])
  show ?thesis using 1 2 3 by linarith
qed

lemma digits_lex:
  fixes a b c d a' b' c' d' :: nat
  assumes "1000 * a + 100 * b + 10 * c + d \<le> 1000 * a' + 100 * b' + 10 * c' + d'"
    and "b < 10" "c < 10" "d < 10" "b' < 10" "c' < 10" "d' < 10"
  shows "a < a' \<or> a = a' \<and> (b < b' \<or> b = b' \<and> (c < c' \<or> c = c' \<and> d \<le> d'))"
  using assms by arith

lemma pad4_value:
  assumes "n < 10000"
  shows "parseInt (padStart 4 CHR ''0'' (toString n)) = Some n"
proof -
  have "n div 1000 < 10" using assms by simp
  then show ?thesis using digits_sum[of n]
    by (simp add: pad4[OF assms] parseInt_def isDigit_digitChar digitValue_digitChar)
qed

lemma pad4_mono:
  assumes "m \<le> n" "n < 10000"
  shows "padStart 4 CHR ''0'' (toString m) \<le> padStart 4 CHR ''0'' (toString n)"
proof -
  have m: "m < 10000" using assms by simp
  have d: "m div 1000 < 10" "n div 1000 < 10" using assms by simp_all
  have "m div 1000 < n div 1000 \<or> m div 1000 = n div 1000 \<and>
        (m div 100 mod 10 < n div 100 mod 10 \<or> m div 100 mod 10 = n div 100 mod 10 \<and>
         (m div 10 mod 10 < n div 10 mod 10 \<or> m div 10 mod 10 = n div 10 mod 10 \<and>
          m mod 10 \<le> n mod 10))"
    by (rule digits_lex) (simp_all add: digits_sum assms(1))
  then show ?thesis
    using d by (simp add: pad4[OF m] pad4[OF assms(2)] digitChar_less digitChar_eq le_less) blast
qed

section \<open>The last order of the day\<close>

lemma append_le_append: "(pre @ a :: string) \<le> pre @ b \<longleftrightarrow> a \<le> b"
  by (induction pre) simp_all

lemma formatOrderNumber_mono:
  "m \<le> n \<Longrightarrow> n < 10000 \<Longrightarrow> formatOrderNumber d m \<le> formatOrderNumber d n"
  unfolding formatOrderNumber_def
  by (simp only: append_le_append append_assoc[symmetric] pad4_mono)

lemma formatOrderNumber_max:
  assumes "m < 10000" "n < 10000"
  shows "max (formatOrderNumber d m) (formatOrderNumber d n) = formatOrderNumber d (max m n)"
proof (cases "m \<le> n")
  case True
  then show ?thesis using formatOrderNumber_mono[OF True assms(2)] by (simp add: max_def)
next
  case False
  then have "n \<le> m" by simp
  from formatOrderNumber_mono[OF this assms(1), of d] show ?thesis
    using \<open>n \<le> m\<close> by (simp add: max_absorb1)
qed

lemma fold_max_format:
  "k0 < 10000 \<Longrightarrow> \<forall>k\<in>set ks. k < 10000 \<Longrightarrow>
   fold max (map (formatOrderNumber d) ks) (formatOrderNumber d k0) =
   formatOrderNumber d (fold max ks k0)"
proof (induction ks arbitrary: k0)
  case Nil
  then show ?case by simp
next
  case (Cons k ks)
  have "max k k0 < 10000" using Cons.prems by simp
  then show ?case using Cons by (simp add: formatOrderNumber_max)
qed

lemma sliceLast_format:
  "k < 10000 \<Longrightarrow> sliceLast 4 (formatOrderNumber d k) = padStart 4 CHR ''0'' (toString k)"
  by (simp add: sliceLast_def formatOrderNumber_def pad4_length)

lemma findLastOrder_day:
  assumes "filter (startsWith pre) store = map (formatOrderNumber d) ks"
    and "\<forall>k\<in>set ks. k < 10000"
  shows "findLastOrder pre store =
           (if ks = [] then None else Some (formatOrderNumber d (Max (set ks))))"
proof (cases ks)
  case Nil
  then show ?thesis using assms by (simp add: findLastOrder_def)
next
  case (Cons k0 ks')
  have "fold max (map (formatOrderNumber d) ks') (formatOrderNumber d k0) =
        formatOrderNumber d (fold max ks' k0)"
    using assms(2) Cons by (intro fold_max_format) simp_all
  moreover have "fold max ks' k0 = Max (set ks)"
    unfolding Cons by (rule Max.set_eq_fold[symmetric])
  ultimately show ?thesis using assms(1) Cons by (simp add: findLastOrder_def)
qed

lemma toString_digits4:
  "1000 \<le> n \<Longrightarrow> n < 10000 \<Longrightarrow> length (toString n) = 4 \<and> list_all isDigit (toString n)"
  by (simp add: toString_4 isDigit_digitChar)

lemma pad2_digits:
  "n < 100 \<Longrightarrow> length (padStart 2 CHR ''0'' (toString n)) = 2 \<and>
     list_all isDigit (padStart 2 CHR ''0'' (toString n))"
  by (simp add: pad2 isDigit_digitChar)

lemma dateStr_format:
  assumes "wfDate d"
  shows "length (dateStr d) = 8 \<and> list_all isDigit (dateStr d)"
proof -
  have y: "1000 \<le> getFullYear d" "getFullYear d < 10000"
    and m: "getMonth d + 1 < 100" and dd: "getDate d < 100"
    using assms by (simp_all add: wfDate_def)
  show ?thesis
    using toString_digits4[OF y] pad2_digits[OF m] pad2_digits[OF dd]
    by (simp add: dateStr_def)
qed

lemma dateStr_digits:
  assumes "wfDate d"
  shows "dateStr d =
     [digitChar (getFullYear d div 1000), digitChar (getFullYear d div 100 mod 10),
      digitChar (getFullYear d div 10 mod 10), digitChar (getFullYear d mod 10),
      digitChar ((getMonth d + 1) div 10), digitChar ((getMonth d + 1) mod 10),
      digitChar (getDate d div 10), digitChar (getDate d mod 10)]"
proof -
  have y: "1000 \<le> getFullYear d" "getFullYear d < 10000"
    and m: "getMonth d + 1 < 100" and dd: "getDate d < 100"
    using assms by (simp_all add: wfDate_def)
  show ?thesis
    unfolding dateStr_def toString_4[OF y] pad2[OF m] pad2[OF dd] by simp
qed

lemma nextSequence_bound: "\<forall>k\<in>set ks. k < 9999 \<Longrightarrow> nextSequence ks < 10000"
  by (cases "ks = []") (simp_all add: nextSequence_def)

lemma preSave_next:
  assumes day: "filter (startsWith (''VC'' @ dateStr d)) store = map (formatOrderNumber d) ks"
    and below: "\<forall>k\<in>set ks. k < 9999"
    and falsy: "orderNumber ord = None \<or> orderNumber ord = Some []"
  shows "preSave d store ord = ord\<lparr>orderNumber := Some (formatOrderNumber d (nextSequence ks))\<rparr>"
proof -
  have b: "\<forall>k\<in>set ks. k < 10000" using below by auto
  note last = findLastOrder_day[OF day b]
  show ?thesis
  proof (cases "ks = []")
    case True
    then show ?thesis using falsy last
      by (auto simp add: preSave_def nextSequence_def formatOrderNumber_def numberToString_def)
  next
    case False
    then have "Max (set ks) \<in> set ks" by simp
    then have M: "Max (set ks) < 10000" using b by blast
    show ?thesis using falsy last False
      by (auto simp add: preSave_def nextSequence_def formatOrderNumber_def[of d "Suc _"] numberToString_def
          sliceLast_format[OF M] pad4_value[OF M])
  qed
qed

lemma preSave_keeps: "s \<noteq> [] \<Longrightarrow> orderNumber ord = Some s \<Longrightarrow> preSave d store ord = ord"
  by (simp add: preSave_def)

section \<open>The order number computed by the hook\<close>

text \<open>
  What the body of the hook computes. On a day whose year has four digits, let the stored
  order numbers that start with \<open>VC<date>\<close> be the order numbers of the sequence numbers
  \<open>ks\<close>, all below 9999. For a document without an order number (absent or empty) the
  hook computes \<open>VC\<close>, the date and the padded next sequence: 1 when \<open>ks\<close> is empty,
  otherwise one more than the highest of \<open>ks\<close>. The date part is the four digits of the
  year, the two digits of the month counted from 1 and the two digits of the day; the
  sequence part has 4 digits, reads back as the next sequence, and the next sequence is
  greater than every sequence of \<open>ks\<close>. A document that has a non-empty order number is
  left as it is.
\<close>

lemma preSave_assigns_order_number:
  assumes "wfDate d"
    and "filter (startsWith (''VC'' @ dateStr d)) store = map (formatOrderNumber d) ks"
    and "\<forall>k\<in>set ks. k < 9999"
  shows "(orderNumber ord = None \<or> orderNumber ord = Some [] \<longrightarrow>
            orderNumber (preSave d store ord) =
              Some (''VC'' @ dateStr d @ padStart 4 CHR ''0'' (toString (nextSequence ks)))) \<and>
         dateStr d =
           [digitChar (getFullYear d div 1000), digitChar (getFullYear d div 100 mod 10),
            digitChar (getFullYear d div 10 mod 10), digitChar (getFullYear d mod 10),
            digitChar ((getMonth d + 1) div 10), digitChar ((getMonth d + 1) mod 10),
            digitChar (getDate d div 10), digitChar (getDate d mod 10)] \<and>
         length (dateStr d) = 8 \<and> list_all isDigit (dateStr d) \<and>
         length (padStart 4 CHR ''0'' (toString (nextSequence ks))) = 4 \<and>
         list_all isDigit (padStart 4 CHR ''0'' (toString (nextSequence ks))) \<and>
         parseInt (padStart 4 CHR ''0'' (toString (nextSequence ks))) = Some (nextSequence ks) \<and>
         (\<forall>k\<in>set ks. k < nextSequence ks) \<and>
         (orderNumber ord = Some s \<and> s \<noteq> [] \<longrightarrow> preSave d store ord = ord)"
proof -
  have n: "nextSequence ks < 10000" using assms(3) by (rule nextSequence_bound)
  have a: "orderNumber (preSave d store ord) =
              Some (''VC'' @ dateStr d @ padStart 4 CHR ''0'' (toString (nextSequence ks)))"
    if "orderNumber ord = None \<or> orderNumber ord = Some []"
    using preSave_next[OF assms(2,3) that] by (simp add: formatOrderNumber_def)
  have b: "\<forall>k\<in>set ks. k < nextSequence ks"
    by (auto simp: nextSequence_def less_Suc_eq_le)
  have c: "preSave d store ord = ord" if "orderNumber ord = Some s \<and> s \<noteq> []"
    using that preSave_keeps by blast
  show ?thesis
    using a b c dateStr_digits[OF assms(1)] dateStr_format[OF assms(1)]
      pad4_length[OF n] pad4_digits[OF n] pad4_value[OF n]
    by blast
qed

text \<open>
  1 May 2024 (\<open>getMonth\<close> is 4): after the sequences 1 and 2 of that day the hook assigns
  \<open>VC202405010003\<close>; with only an order of another day stored it assigns
  \<open>VC202405010001\<close>; an order that has a number keeps it.
\<close>

lemma preSave_assigns_order_number_example:
  "orderNumber (preSave \<lparr>getFullYear = 2024, getMonth = 4, getDate = 1\<rparr>
       [''VC202405010001'', ''VC202404300005'', ''VC202405010002''] \<lparr>orderNumber = None\<rparr>)
     = Some ''VC202405010003'' \<and>
   orderNumber (preSave \<lparr>getFullYear = 2024, getMonth = 4, getDate = 1\<rparr> [''VC202404300005'']
       \<lparr>orderNumber = None\<rparr>)
     = Some ''VC202405010001'' \<and>
   preSave \<lparr>getFullYear = 2024, getMonth = 4, getDate = 1\<rparr>
       [''VC202405010001'', ''VC202404300005'', ''VC202405010002'']
       \<lparr>orderNumber = Some ''VC202404300005''\<rparr>
     = \<lparr>orderNumber = Some ''VC202404300005''\<rparr>"
proof -
  let ?d = "\<lparr>getFullYear = 2024, getMonth = 4, getDate = 1\<rparr>"
  let ?store = "[''VC202405010001'', ''VC202404300005'', ''VC202405010002'']"
  note ev = dateStr_def toString.simps digitChar_def padStart_def replicate_numeral
  have w: "wfDate ?d" by (simp add: wfDate_def)
  have h1: "filter (startsWith (''VC'' @ dateStr ?d)) ?store = map (formatOrderNumber ?d) [1, 2]"
    by (simp add: startsWith_def formatOrderNumber_def ev)
  have h2: "\<forall>k\<in>set [1, 2::nat]. k < 9999" by simp
  have h3: "filter (startsWith (''VC'' @ dateStr ?d)) [''VC202404300005''] = map (formatOrderNumber ?d) []"
    by (simp add: startsWith_def ev)
  have h4: "\<forall>k\<in>set ([]::nat list). k < 9999" by simp
  have n: "nextSequence [1, 2] = 3" "nextSequence [] = 1" by (simp_all add: nextSequence_def)
  have e: "''VC'' @ dateStr ?d @ padStart 4 CHR ''0'' (toString 3) = ''VC202405010003''"
    "''VC'' @ dateStr ?d @ padStart 4 CHR ''0'' (toString 1) = ''VC202405010001''"
    by (simp_all add: ev)
  have "orderNumber (preSave ?d ?store \<lparr>orderNumber = None\<rparr>) =
          Some (''VC'' @ dateStr ?d @ padStart 4 CHR ''0'' (toString (nextSequence [1, 2])))"
    using preSave_assigns_order_number[OF w h1 h2, of "\<lparr>orderNumber = None\<rparr>" "''x''"] by simp
  then have c1: "orderNumber (preSave ?d ?store \<lparr>orderNumber = None\<rparr>) = Some ''VC202405010003''"
    by (simp only: n e)
  have "orderNumber (preSave ?d [''VC202404300005''] \<lparr>orderNumber = None\<rparr>) =
          Some (''VC'' @ dateStr ?d @ padStart 4 CHR ''0'' (toString (nextSequence [])))"
    using preSave_assigns_order_number[OF w h3 h4, of "\<lparr>orderNumber = None\<rparr>" "''x''"] by simp
  then have c2: "orderNumber (preSave ?d [''VC202404300005''] \<lparr>orderNumber = None\<rparr>)
      = Some ''VC202405010001''"
    by (simp only: n e)
  have c3: "preSave ?d ?store \<lparr>orderNumber = Some ''VC202404300005''\<rparr>
      = \<lparr>orderNumber = Some ''VC202404300005''\<rparr>"
    using preSave_assigns_order_number[OF w h1 h2, of "\<lparr>orderNumber = Some ''VC202404300005''\<rparr>"
        "''VC202404300005''"] by simp
  show ?thesis using c1 c2 c3 by (intro conjI)
qed

text \<open>
  At the end of the four digits the body of the hook goes wrong: after sequence 9999 it
  computes a sequence of five digits, and once that number is stored the greatest string of
  the day is still the one ending in 9999, so it computes the same number again.
\<close>

lemma preSave_sequence_overflow:
  "orderNumber (preSave \<lparr>getFullYear = 2024, getMonth = 4, getDate = 1\<rparr> [''VC202405019999'']
       \<lparr>orderNumber = None\<rparr>)
     = Some ''VC2024050110000'' \<and>
   orderNumber (preSave \<lparr>getFullYear = 2024, getMonth = 4, getDate = 1\<rparr>
       [''VC202405019999'', ''VC2024050110000''] \<lparr>orderNumber = None\<rparr>)
     = Some ''VC2024050110000''"
  by (simp add: preSave_def findLastOrder_def startsWith_def dateStr_def toString.simps digitChar_def
      padStart_def parseInt_def isDigit_def digitValue_def sliceLast_def numberToString_def max_def
      Let_def replicate_numeral)

text \<open>
  The hook is a function of the date, of the state of the collection that its query saw and
  of the document; it writes nothing to the collection and has no loop. Two documents
  without an order number whose queries saw the same state are assigned the same number.
\<close>

lemma preSave_same_snapshot:
  "orderNumber o1 = None \<Longrightarrow> orderNumber o2 = None \<Longrightarrow>
   orderNumber (preSave d store o1) = orderNumber (preSave d store o2)"
  by (simp add: preSave_def Let_def)

section \<open>Saving an order without an order number\<close>

text \<open>
  Claim C5. The claim is that an order saved without an order number is assigned one by
  the hook, and that an order with an order number keeps it. The second half holds. The
  first does not: validation of the required \<open>orderNumber\<close> runs before the hook, so
  \<open>save\<close> of a document without an order number (absent or empty) ends in a validation
  error for every date and every collection, and the hook does not run.
\<close>

theorem save_without_orderNumber_rejected:
  "(orderNumber ord = None \<or> orderNumber ord = Some [] \<longrightarrow>
      save d store ord = Inl ValidationError) \<and>
   (orderNumber ord = Some s \<and> s \<noteq> [] \<longrightarrow> save d store ord = Inr ord)"
  by (auto simp add: save_def requiredOrderNumber_def preSave_def)

text \<open>
  On 1 May 2024 with an empty collection the hook would compute \<open>VC202405010001\<close>, but
  the save is rejected; an order that carries a number is saved with it.
\<close>

theorem save_without_orderNumber_rejected_witness:
  "save \<lparr>getFullYear = 2024, getMonth = 4, getDate = 1\<rparr> [] \<lparr>orderNumber = None\<rparr>
     = Inl ValidationError \<and>
   save \<lparr>getFullYear = 2024, getMonth = 4, getDate = 1\<rparr> [] \<lparr>orderNumber = Some []\<rparr>
     = Inl ValidationError \<and>
   save \<lparr>getFullYear = 2024, getMonth = 4, getDate = 1\<rparr> []
       \<lparr>orderNumber = Some ''VC202404300005''\<rparr>
     = Inr \<lparr>orderNumber = Some ''VC202404300005''\<rparr>"
  using save_without_orderNumber_rejected [of "\<lparr>orderNumber = None\<rparr>"
      "\<lparr>getFullYear = 2024, getMonth = 4, getDate = 1\<rparr>" "[]" "''x''"]
    save_without_orderNumber_rejected [of "\<lparr>orderNumber = Some []\<rparr>"
      "\<lparr>getFullYear = 2024, getMonth = 4, getDate = 1\<rparr>" "[]" "''x''"]
    save_without_orderNumber_rejected [of "\<lparr>orderNumber = Some ''VC202404300005''\<rparr>"
      "\<lparr>getFullYear = 2024, getMonth = 4, getDate = 1\<rparr>" "[]" "''VC202404300005''"]
  by simp

section \<open>The bulk price\<close>

lemma applicableDiscount_ge_acc: "acc \<le> applicableDiscount q ds acc"
proof (induction ds arbitrary: acc)
  case Nil
  show ?case by simp
next
  case (Cons d ds)
  show ?case
    using Cons[of "discountPercentage d"] Cons[of acc] by auto
qed

lemma applicableDiscount_ge_met:
  "d \<in> set ds \<Longrightarrow> minQuantity d \<le> q \<Longrightarrow> discountPercentage d \<le> applicableDiscount q ds acc"
proof (induction ds arbitrary: acc)
  case Nil
  then show ?case by simp
next
  case (Cons e ds)
  show ?case
  proof (cases "d = e")
    case True
    show ?thesis
      using Cons.prems(2) True applicableDiscount_ge_acc[of "discountPercentage e" q ds]
        applicableDiscount_ge_acc[of acc q ds]
      by auto
  next
    case False
    then have "d \<in> set ds" using Cons.prems(1) by simp
    then show ?thesis using Cons.IH Cons.prems(2) by simp
  qed
qed

lemma applicableDiscount_attained:
  "applicableDiscount q ds acc = acc \<or>
   (\<exists>d\<in>set ds. minQuantity d \<le> q \<and> applicableDiscount q ds acc = discountPercentage d)"
proof (induction ds arbitrary: acc)
  case Nil
  show ?case by simp
next
  case (Cons e ds)
  show ?case
    using Cons[of "discountPercentage e"] Cons[of acc] by auto
qed

lemma applicableDiscount_Max:
  "applicableDiscount q ds acc =
     Max (insert acc (discountPercentage ` {d \<in> set ds. minQuantity d \<le> q}))"
proof (rule Max_eqI[symmetric])
  show "finite (insert acc (discountPercentage ` {d \<in> set ds. minQuantity d \<le> q}))" by simp
  show "applicableDiscount q ds acc \<in> insert acc (discountPercentage ` {d \<in> set ds. minQuantity d \<le> q})"
    using applicableDiscount_attained[of q ds acc] by auto
  fix y assume "y \<in> insert acc (discountPercentage ` {d \<in> set ds. minQuantity d \<le> q})"
  then show "y \<le> applicableDiscount q ds acc"
    using applicableDiscount_ge_acc[of acc q ds] applicableDiscount_ge_met[of _ ds q acc] by auto
qed

lemma applicableDiscount_mono:
  assumes "q1 \<le> q2"
  shows "applicableDiscount q1 ds acc \<le> applicableDiscount q2 ds acc"
  using applicableDiscount_attained[of q1 ds acc] applicableDiscount_ge_acc[of acc q2 ds]
    applicableDiscount_ge_met[of _ ds q2 acc] assms
  by (metis order_trans)

lemma applicableDiscount_le:
  assumes "acc \<le> b" "\<forall>d\<in>set ds. discountPercentage d \<le> b"
  shows "applicableDiscount q ds acc \<le> b"
  using applicableDiscount_attained[of q ds acc] assms by auto

lemma applicableDiscount_none: "\<forall>d\<in>set ds. \<not> minQuantity d \<le> q \<Longrightarrow> applicableDiscount q ds acc = acc"
  using applicableDiscount_attained[of q ds acc] by auto

text \<open>The factor \<open>1 - discount / 100\<close> as the code computes it.\<close>

lemma factor_bounds:
  assumes "0 \<le> a" "a \<le> 100"
  shows "0 \<le> jsSub 1 (jsDiv a 100)" "jsSub 1 (jsDiv a 100) \<le> 1"
proof -
  have "fl 0 \<le> fl (a / 100)" "fl (a / 100) \<le> fl 1"
    using assms by (intro fl_mono; simp)+
  then have t: "0 \<le> jsDiv a 100" "jsDiv a 100 \<le> 1" by (simp_all add: jsDiv_def fl_0 fl_1)
  have "fl 0 \<le> fl (1 - jsDiv a 100)" "fl (1 - jsDiv a 100) \<le> fl 1"
    using t by (intro fl_mono; simp)+
  then show "0 \<le> jsSub 1 (jsDiv a 100)" "jsSub 1 (jsDiv a 100) \<le> 1"
    by (simp_all add: jsSub_def fl_0 fl_1)
qed

lemma factor_antimono:
  assumes "a \<le> b"
  shows "jsSub 1 (jsDiv b 100) \<le> jsSub 1 (jsDiv a 100)"
proof -
  have "fl (a / 100) \<le> fl (b / 100)" using assms by (intro fl_mono) simp
  then show ?thesis unfolding jsSub_def jsDiv_def by (intro fl_mono) simp
qed

text \<open>
  Claim C10, as amended. For a product whose price is a Number that is not negative and
  whose discounts all have a percentage between 0 and 100, \<open>getBulkPrice\<close> applies the
  largest percentage among the discounts whose \<open>minQuantity\<close> is met (0 when none is met);
  the result does not increase with the quantity, does not exceed the price, is not
  negative, and is the price when no \<open>minQuantity\<close> is met.
\<close>

theorem getBulkPrice_properties:
  assumes "0 \<le> price p" and "isNumber (price p)"
    and "\<forall>d\<in>set (bulkDiscounts p). 0 \<le> discountPercentage d \<and> discountPercentage d \<le> 100"
  shows "getBulkPrice q p =
           jsMul (price p)
             (jsSub 1 (jsDiv (Max (insert 0 (discountPercentage ` set (metDiscounts q p)))) 100)) \<and>
         (metDiscounts q p \<noteq> [] \<longrightarrow> getBulkPrice q p =
           jsMul (price p) (jsSub 1 (jsDiv (Max (discountPercentage ` set (metDiscounts q p))) 100))) \<and>
         (q1 \<le> q2 \<longrightarrow> getBulkPrice q2 p \<le> getBulkPrice q1 p) \<and>
         getBulkPrice q p \<le> price p \<and> 0 \<le> getBulkPrice q p \<and>
         (metDiscounts q p = [] \<longrightarrow> getBulkPrice q p = price p)"
proof -
  let ?a = "\<lambda>q. applicableDiscount q (bulkDiscounts p) 0"
  let ?S = "discountPercentage ` set (metDiscounts q p)"
  have set_met: "set (metDiscounts q p) = {d \<in> set (bulkDiscounts p). minQuantity d \<le> q}"
    by (auto simp: metDiscounts_def)
  have nonneg: "0 \<le> ?a q" for q by (rule applicableDiscount_ge_acc)
  have le100: "?a q \<le> 100" for q
    using assms(3) by (intro applicableDiscount_le) auto
  have mx: "?a q = Max (insert 0 ?S)"
    by (simp add: applicableDiscount_Max set_met)
  have c1: "getBulkPrice q p = jsMul (price p) (jsSub 1 (jsDiv (Max (insert 0 ?S)) 100))"
    by (simp add: getBulkPrice_def mx)
  have c2: "getBulkPrice q p = jsMul (price p) (jsSub 1 (jsDiv (Max ?S) 100))"
    if ne: "metDiscounts q p \<noteq> []"
  proof -
    have fin: "finite ?S" and ne': "?S \<noteq> {}" using ne by auto
    have "\<forall>x\<in>?S. 0 \<le> x" using assms(3) by (auto simp: metDiscounts_def)
    then have "0 \<le> Max ?S" using fin ne' by (meson Max_in)
    then have "Max (insert 0 ?S) = Max ?S" using fin ne' by (simp add: max_absorb2)
    then show ?thesis using c1 by simp
  qed
  have c3: "getBulkPrice q2 p \<le> getBulkPrice q1 p" if "q1 \<le> q2"
  proof -
    have "?a q1 \<le> ?a q2" using that by (rule applicableDiscount_mono)
    then have "jsSub 1 (jsDiv (?a q2) 100) \<le> jsSub 1 (jsDiv (?a q1) 100)"
      by (rule factor_antimono)
    then have "price p * jsSub 1 (jsDiv (?a q2) 100) \<le> price p * jsSub 1 (jsDiv (?a q1) 100)"
      using assms(1) by (rule mult_left_mono)
    then show ?thesis unfolding getBulkPrice_def jsMul_def by (rule fl_mono)
  qed
  have c4: "getBulkPrice q p \<le> price p"
  proof -
    have "price p * jsSub 1 (jsDiv (?a q) 100) \<le> price p * 1"
      using assms(1) factor_bounds(2)[OF nonneg le100] by (intro mult_left_mono)
    then have "fl (price p * jsSub 1 (jsDiv (?a q) 100)) \<le> fl (price p)"
      by (intro fl_mono) simp
    then show ?thesis using assms(2) by (simp add: getBulkPrice_def jsMul_def isNumber_def)
  qed
  have c5: "0 \<le> getBulkPrice q p"
    unfolding getBulkPrice_def jsMul_def
    using assms(1) factor_bounds(1)[OF nonneg le100] by (intro fl_nonneg mult_nonneg_nonneg)
  have c6: "getBulkPrice q p = price p" if "metDiscounts q p = []"
  proof -
    have "\<forall>d\<in>set (bulkDiscounts p). \<not> minQuantity d \<le> q"
      using that by (simp add: metDiscounts_def filter_empty_conv)
    then have "?a q = 0" by (rule applicableDiscount_none)
    then show ?thesis using assms(2)
      by (simp add: getBulkPrice_def jsMul_def jsSub_def jsDiv_def fl_0 fl_1 isNumber_def)
  qed
  show ?thesis using c1 c2 c3 c4 c5 c6 by blast
qed

theorem getBulkPrice_properties_witness:
  "getBulkPrice 60 \<lparr>price = 200, bulkDiscounts =
       [\<lparr>minQuantity = 10, discountPercentage = 25\<rparr>, \<lparr>minQuantity = 50, discountPercentage = 50\<rparr>]\<rparr>
     \<le> getBulkPrice 30 \<lparr>price = 200, bulkDiscounts =
       [\<lparr>minQuantity = 10, discountPercentage = 25\<rparr>, \<lparr>minQuantity = 50, discountPercentage = 50\<rparr>]\<rparr> \<and>
   getBulkPrice 60 \<lparr>price = 200, bulkDiscounts =
       [\<lparr>minQuantity = 10, discountPercentage = 25\<rparr>, \<lparr>minQuantity = 50, discountPercentage = 50\<rparr>]\<rparr>
     \<le> 200 \<and>
   getBulkPrice 5 \<lparr>price = 200, bulkDiscounts =
       [\<lparr>minQuantity = 10, discountPercentage = 25\<rparr>, \<lparr>minQuantity = 50, discountPercentage = 50\<rparr>]\<rparr>
     = 200"
proof -
  let ?p = "\<lparr>price = 200, bulkDiscounts =
       [\<lparr>minQuantity = 10, discountPercentage = 25\<rparr>, \<lparr>minQuantity = 50, discountPercentage = 50\<rparr>]\<rparr>"
  have h1: "0 \<le> price ?p" by simp
  have h2: "isNumber (price ?p)" by (simp add: isNumber_def fl_numeral)
  have h3: "\<forall>d\<in>set (bulkDiscounts ?p). 0 \<le> discountPercentage d \<and> discountPercentage d \<le> 100"
    by simp
  show ?thesis
    using getBulkPrice_properties[OF h1 h2 h3, of 60 30 60]
      getBulkPrice_properties[OF h1 h2 h3, of 5 0 0]
    by (simp add: metDiscounts_def)
qed

text \<open>
  Claim C10 as stated fails in its last part, read as an equivalence: a discount of 0
  percent whose \<open>minQuantity\<close> is met leaves the price as it is.
\<close>

theorem zero_discount_counterexample:
  "metDiscounts 5 \<lparr>price = 100, bulkDiscounts = [\<lparr>minQuantity = 1, discountPercentage = 0\<rparr>]\<rparr> \<noteq> [] \<and>
   getBulkPrice 5 \<lparr>price = 100, bulkDiscounts = [\<lparr>minQuantity = 1, discountPercentage = 0\<rparr>]\<rparr>
     = price \<lparr>price = 100, bulkDiscounts = [\<lparr>minQuantity = 1, discountPercentage = 0\<rparr>]\<rparr>"
  by (simp add: metDiscounts_def getBulkPrice_def jsMul_def jsSub_def jsDiv_def fl_0 fl_1 fl_numeral)

text \<open>
  Two values: half of 200, which is exact, and 7 percent off 1, where the three operations
  round to \<open>0.9299999999999999\<close>.
\<close>

lemma getBulkPrice_half:
  "getBulkPrice 60 \<lparr>price = 200, bulkDiscounts =
       [\<lparr>minQuantity = 10, discountPercentage = 25\<rparr>, \<lparr>minQuantity = 50, discountPercentage = 50\<rparr>]\<rparr>
     = 100"
  by (simp add: getBulkPrice_def jsMul_def jsSub_def jsDiv_def fl_half fl_numeral)

lemma fl_7_100: "fl (7 / 100) = 1261007895663739 / 18014398509481984"
  by (simp add: fl_eval[of "- 4"] rne_def)

lemma fl_93_100: "fl (16753390613818245 / 18014398509481984) = 4188347653454561 / 4503599627370496"
  by (simp add: fl_eval[of "- 1"] rne_def)

lemma fl_93_100_exact:
  "fl (4188347653454561 / 4503599627370496) = 4188347653454561 / 4503599627370496"
  using fl_representable[of 4188347653454561 "- 52"] by simp

lemma getBulkPrice_rounded:
  "getBulkPrice 1 \<lparr>price = 1, bulkDiscounts = [\<lparr>minQuantity = 1, discountPercentage = 7\<rparr>]\<rparr>
     = 4188347653454561 / 4503599627370496"
  by (simp add: getBulkPrice_def jsMul_def jsSub_def jsDiv_def fl_7_100 fl_93_100 fl_93_100_exact)

text \<open>
  A positive discount can leave the price as well: with the Number nearest to
  \<open>1e-15\<close> as percentage, \<open>1 - discount / 100\<close> rounds to 1.
\<close>

lemma fl_tiny:
  "fl (2535301200456459 / 253530120045645880299340641075200)
     = 6490371073168535 / 649037107316853453566312041152512"
  by (simp add: fl_eval[of "- 57"] rne_def)

lemma fl_below_1:
  "fl (649037107316853447075940967983977 / 649037107316853453566312041152512) = 1"
  by (simp add: fl_eval[of "- 1"] rne_def)

lemma getBulkPrice_tiny_discount:
  "getBulkPrice 5 \<lparr>price = 100, bulkDiscounts =
       [\<lparr>minQuantity = 1, discountPercentage = 2535301200456459 / 2535301200456458802993406410752\<rparr>]\<rparr>
     = 100"
  by (simp add: getBulkPrice_def jsMul_def jsSub_def jsDiv_def fl_tiny fl_below_1 fl_numeral)

end
